theory Spec2Isabelle
  imports Complex_Main "HOL-Library.Multiset"
begin

section \<open>globes.js: the orbital model and the depth-sorted renderer\<close>

text \<open>
  A shallow embedding of \<^verbatim>\<open>src/globes.js\<close>. JavaScript Numbers are modelled as
  mathematical reals: \<open>Math.cos\<close>, \<open>Math.sin\<close>, \<open>Math.tan\<close>, \<open>Math.asin\<close> and
  \<open>Math.PI\<close> are \<open>cos\<close>, \<open>sin\<close>, \<open>tan\<close>, \<open>arcsin\<close> and \<open>pi\<close>; IEEE rounding, NaN
  and the infinities are not modelled. Where the source divides, HOL's \<open>x / 0 = 0\<close>
  differs from JavaScript, so every theorem that depends on a quotient states that the
  divisor is not zero.

  The fields of the source's object literals have one-letter names (\<open>r\<close>, \<open>d\<close>, \<open>p\<close>,
  \<open>o\<close>, \<open>x\<close>, \<open>y\<close>, \<open>z\<close>); they carry a prefix here (\<open>b_\<close> for a catalog entry, \<open>s_\<close> for
  an entry of \<open>state\<close>, \<open>o_\<close> for an entry of \<open>sorted\<close>), and so do the one-letter
  constants of line 17 (\<open>c_\<close>), because a one-letter constant would capture the variables
  of every later statement.
\<close>

subsection \<open>The catalog (lines 17 to 35)\<close>

record body =
  b_r :: real
  b_d :: real
  b_p :: real
  b_o :: "nat option"
  b_ring :: "(real \<times> real) option"

definition c_S :: real where "c_S = 2000"
definition c_E :: real where "c_E = 18.33"
definition c_M :: real where "c_M = 5"
definition c_J :: real where "c_J = 201"
definition c_SA :: real where "c_SA = 167"
definition c_U :: real where "c_U = 72.9"
definition c_N :: real where "c_N = 70.5"

definition MAX_ORBIT :: real where "MAX_ORBIT = c_S + 4500"

definition bodies :: "body list" where
  "bodies =
    [ \<lparr>b_r = c_S, b_d = 0, b_p = 1, b_o = None, b_ring = None\<rparr>,
      \<lparr>b_r = 7, b_d = c_S + 20, b_p = 58.6 * 86400, b_o = Some 0, b_ring = None\<rparr>,
      \<lparr>b_r = 17, b_d = c_S + 50, b_p = 243 * 86400, b_o = Some 0, b_ring = None\<rparr>,
      \<lparr>b_r = c_E, b_d = c_S + 150, b_p = 365.256 * 86400, b_o = Some 0, b_ring = None\<rparr>,
      \<lparr>b_r = c_M, b_d = c_E + 50, b_p = 29.5 * 86400, b_o = Some 3, b_ring = None\<rparr>,
      \<lparr>b_r = 9.76, b_d = c_S + 250, b_p = 687 * 86400, b_o = Some 0, b_ring = None\<rparr>,
      \<lparr>b_r = c_J, b_d = c_S + 700, b_p = 4333 * 86400, b_o = Some 0, b_ring = None\<rparr>,
      \<lparr>b_r = 5.25, b_d = c_J + 20, b_p = 42.5 * 3600, b_o = Some 6, b_ring = None\<rparr>,
      \<lparr>b_r = 4.49, b_d = c_J + 40, b_p = 3.5 * 86400, b_o = Some 6, b_ring = None\<rparr>,
      \<lparr>b_r = 7.57, b_d = c_J + 70, b_p = 7.155 * 86400, b_o = Some 6, b_ring = None\<rparr>,
      \<lparr>b_r = 7.4, b_d = c_J + 200, b_p = 16.689 * 86400, b_o = Some 6, b_ring = None\<rparr>,
      \<lparr>b_r = c_SA, b_d = c_S + 1500, b_p = 10756 * 86400, b_o = Some 0,
        b_ring = Some (c_SA + 100, c_SA + 200)\<rparr>,
      \<lparr>b_r = c_U, b_d = c_S + 2500, b_p = 30688 * 86400, b_o = Some 0,
        b_ring = Some (c_U + 100, c_U + 200)\<rparr>,
      \<lparr>b_r = c_N, b_d = c_S + 4500, b_p = 60182 * 86400, b_o = Some 0, b_ring = None\<rparr> ]"

subsection \<open>The per-body state (lines 37 and 38)\<close>

record body_state =
  s_x :: real
  s_y :: real
  s_z :: real
  s_r :: real
  s_dr :: real

definition angle :: real where "angle = - 0.3"

text \<open>\<open>bodies.map(() => ({ x: 0, y: 0, z: 0, r: 0, dr: 0 }))\<close>\<close>

definition zero_state :: body_state where
  "zero_state = \<lparr>s_x = 0, s_y = 0, s_z = 0, s_r = 0, s_dr = 0\<rparr>"

definition state_init :: "body list \<Rightarrow> body_state list" where
  "state_init bs = map (\<lambda>_. zero_state) bs"

subsection \<open>The position update loop (lines 49 and 59 to 69)\<close>

text \<open>\<open>orbit(t, p, off = 0)\<close>; a call with two arguments passes \<open>0\<close> here.\<close>

definition orbit :: "real \<Rightarrow> real \<Rightarrow> real \<Rightarrow> real" where
  "orbit t p off = cos (t / p * 2 * pi + off)"

text \<open>
  Reading a property of \<open>undefined\<close> throws a TypeError: \<open>state[b.o]\<close> with \<open>b.o\<close> past
  the end of \<open>state\<close> is \<open>undefined\<close>, and so is \<open>state[i]\<close>.
\<close>

datatype error = TypeError

text \<open>
  The parent of line 61: the entry of \<open>state\<close> the body orbits, as it stands when the
  body is reached, or the literal \<open>{ x: 0, y: 0, z: 0 }\<close> (its \<open>r\<close> and \<open>dr\<close> are never
  read).
\<close>

definition parent_of :: "body_state list \<Rightarrow> nat option \<Rightarrow> body_state option" where
  "parent_of st po =
     (case po of
        None \<Rightarrow> Some zero_state
      | Some j \<Rightarrow> if j < length st then Some (st ! j) else None)"

text \<open>Lines 62 to 68: the five assignments to \<open>s\<close>.\<close>

definition body_step :: "body \<Rightarrow> body_state \<Rightarrow> real \<Rightarrow> real \<Rightarrow> real \<Rightarrow> body_state" where
  "body_step b parent t ang scale =
     (let dist = b_d b * scale in
      \<lparr> s_x = s_x parent + dist * orbit t (b_p b) 0,
        s_y = s_y parent + sin ang * dist * orbit t (b_p b) (pi / 2),
        s_z = s_z parent + cos ang * dist * orbit t (b_p b) (pi / 2),
        s_r = max (if b_o b \<noteq> None then 0.5 else 0.51) (b_r b * scale),
        s_dr = b_d b * scale \<rparr>)"

text \<open>
  One pass of the loop body for index \<open>i\<close> (the loop guard gives \<open>i < length bs\<close>). The
  entry is mutated in place; when a body is its own parent, each assignment still reads
  the field it is about to write, so the reads are those of the entry before the pass.
\<close>

definition update_body ::
  "body list \<Rightarrow> real \<Rightarrow> real \<Rightarrow> real \<Rightarrow> nat \<Rightarrow> body_state list \<Rightarrow> error + body_state list" where
  "update_body bs t ang scale i st =
     (let b = bs ! i in
      if length st \<le> i then Inl TypeError
      else (case parent_of st (b_o b) of
              None \<Rightarrow> Inl TypeError
            | Some parent \<Rightarrow> Inr (st[i := body_step b parent t ang scale])))"

primrec update_loop ::
  "body list \<Rightarrow> real \<Rightarrow> real \<Rightarrow> real \<Rightarrow> nat list \<Rightarrow> body_state list \<Rightarrow> error + body_state list" where
  "update_loop bs t ang scale [] st = Inr st"
| "update_loop bs t ang scale (i # is) st =
     (case update_body bs t ang scale i st of
        Inl e \<Rightarrow> Inl e
      | Inr st' \<Rightarrow> update_loop bs t ang scale is st')"

text \<open>\<open>for (let i = 0; i < bodies.length; i++)\<close>\<close>

definition update_positions ::
  "body list \<Rightarrow> real \<Rightarrow> real \<Rightarrow> real \<Rightarrow> body_state list \<Rightarrow> error + body_state list" where
  "update_positions bs t ang scale st = update_loop bs t ang scale [0..<length bs] st"

subsection \<open>Well-formed catalogs\<close>

text \<open>
  Every parent index names an entry of the catalog (\<open>parents_in_range\<close>), and an earlier
  one (\<open>parents_first\<close>): the convention the source's catalog follows and the loop relies
  on.
\<close>

definition parents_in_range :: "body list \<Rightarrow> bool" where
  "parents_in_range bs = list_all (\<lambda>b. case b_o b of None \<Rightarrow> True | Some j \<Rightarrow> j < length bs) bs"

definition parents_first :: "body list \<Rightarrow> bool" where
  "parents_first bs =
     list_all (\<lambda>(i, b). case b_o b of None \<Rightarrow> True | Some j \<Rightarrow> j < i) (enumerate 0 bs)"

subsection \<open>The depth sort (line 72)\<close>

text \<open>\<open>state.map((s, i) => ({ ...s, i }))\<close>: a copy of every entry, with its index.\<close>

record obj =
  o_x :: real
  o_y :: real
  o_z :: real
  o_r :: real
  o_dr :: real
  o_i :: nat

definition with_index :: "body_state \<Rightarrow> nat \<Rightarrow> obj" where
  "with_index s i =
     \<lparr>o_x = s_x s, o_y = s_y s, o_z = s_z s, o_r = s_r s, o_dr = s_dr s, o_i = i\<rparr>"

definition indexed :: "body_state list \<Rightarrow> obj list" where
  "indexed st = map (\<lambda>(s, i). with_index s i) (zip st [0..<length st])"

text \<open>
  \<open>Array.prototype.sort\<close> belongs to the host; ECMAScript requires it to be stable. It
  is modelled as a stable insertion sort driven by the comparator: an element goes in
  front of the first element of the sorted rest that the comparator does not put before
  it (\<open>cmp x y \<le> 0\<close> keeps \<open>x\<close>, which came first, in front of \<open>y\<close>).
\<close>

fun insert_by :: "('a \<Rightarrow> 'a \<Rightarrow> real) \<Rightarrow> 'a \<Rightarrow> 'a list \<Rightarrow> 'a list" where
  "insert_by cmp x [] = [x]"
| "insert_by cmp x (y # ys) = (if cmp x y \<le> 0 then x # y # ys else y # insert_by cmp x ys)"

definition sort_by :: "('a \<Rightarrow> 'a \<Rightarrow> real) \<Rightarrow> 'a list \<Rightarrow> 'a list" where
  "sort_by cmp xs = foldr (insert_by cmp) xs []"

text \<open>\<open>(a, b) => b.z - a.z\<close>\<close>

definition depth_cmp :: "obj \<Rightarrow> obj \<Rightarrow> real" where
  "depth_cmp a b = o_z b - o_z a"

definition sorted_objs :: "body_state list \<Rightarrow> obj list" where
  "sorted_objs st = sort_by depth_cmp (indexed st)"

subsection \<open>Drawing (lines 75 to 101)\<close>

text \<open>The calls on the 2D context, in the order they are made.\<close>

datatype cmd =
    SetTransform real real real real real real
  | ClearRect real real real real
  | BeginPath
  | Arc real real real real real
  | Ellipse real real real real real real real
  | FillStyle string
  | Fill
  | LineWidth real
  | StrokeStyle string
  | Stroke

text \<open>
  The options object of line 11; a property that is absent takes its default in the
  destructuring. \<open>default_options\<close> is \<open>{}\<close>.
\<close>

record options =
  opt_fill :: "string option"
  opt_stroke :: "string option"
  opt_ring :: "string option"

definition default_options :: options where
  "default_options = \<lparr>opt_fill = None, opt_stroke = None, opt_ring = None\<rparr>"

definition fill_of :: "options \<Rightarrow> string" where
  "fill_of opts = (case opt_fill opts of None \<Rightarrow> ''#fff'' | Some c \<Rightarrow> c)"

definition stroke_of :: "options \<Rightarrow> string" where
  "stroke_of opts = (case opt_stroke opts of None \<Rightarrow> ''#000'' | Some c \<Rightarrow> c)"

definition ring_of :: "options \<Rightarrow> string" where
  "ring_of opts = (case opt_ring opts of None \<Rightarrow> ''rgba(220,220,220,0.8)'' | Some c \<Rightarrow> c)"

text \<open>Lines 78 to 86: the disc.\<close>

definition draw_disc :: "options \<Rightarrow> real \<Rightarrow> real \<Rightarrow> body \<Rightarrow> obj \<Rightarrow> cmd list" where
  "draw_disc opts cx cy b ob =
     (if 0.5 < o_r ob \<or> b_o b = None
      then [BeginPath, Arc (cx + o_x ob) (cy + o_y ob) (o_r ob) 0 (pi * 2),
            FillStyle (fill_of opts), Fill, LineWidth 1, StrokeStyle (stroke_of opts), Stroke]
      else [])"

text \<open>Lines 89 to 92: the ring's radius, its line width and the hidden arc.\<close>

definition ringR :: "body \<Rightarrow> obj \<Rightarrow> real \<times> real \<Rightarrow> real" where
  "ringR b ob rg = (o_r ob / b_r b) * (fst rg + snd rg) / 2"

definition lw :: "real \<Rightarrow> body \<Rightarrow> obj \<Rightarrow> real \<times> real \<Rightarrow> real" where
  "lw ang b ob rg = sin ang * ringR b ob rg + 1"

definition hidden :: "real \<Rightarrow> body \<Rightarrow> obj \<Rightarrow> real \<times> real \<Rightarrow> real" where
  "hidden ang b ob rg =
     (if - tan ang * (o_r ob / b_r b) * fst rg \<ge> o_r ob then 0
      else cos ang * 2 * arcsin (min 1 (o_r ob / ringR b ob rg)))"

text \<open>The two end angles of the arc of line 96.\<close>

definition arc_start :: "real \<Rightarrow> real" where
  "arc_start h = (- pi + h) / 2"

definition arc_end :: "real \<Rightarrow> real" where
  "arc_end h = (3 * pi - h) / 2"

text \<open>Lines 88 to 100: the ring, for a body that has one.\<close>

definition draw_ring :: "options \<Rightarrow> real \<Rightarrow> real \<Rightarrow> real \<Rightarrow> body \<Rightarrow> obj \<Rightarrow> cmd list" where
  "draw_ring opts ang cx cy b ob =
     (case b_ring b of
        None \<Rightarrow> []
      | Some rg \<Rightarrow>
          [BeginPath,
           Ellipse (cx + o_x ob) (cy + o_y ob) (ringR b ob rg) (ringR b ob rg * - sin ang) 0
             (arc_start (hidden ang b ob rg)) (arc_end (hidden ang b ob rg)),
           LineWidth (max 1 (lw ang b ob rg)), StrokeStyle (ring_of opts), Stroke])"

text \<open>
  One pass of \<open>for (const obj of sorted)\<close>; \<open>bodies[obj.i]\<close> past the end of the catalog
  is \<open>undefined\<close>, and reading its \<open>ring\<close> throws.
\<close>

definition draw_obj ::
  "options \<Rightarrow> real \<Rightarrow> real \<Rightarrow> real \<Rightarrow> body list \<Rightarrow> obj \<Rightarrow> error + cmd list" where
  "draw_obj opts ang cx cy bs ob =
     (if length bs \<le> o_i ob then Inl TypeError
      else (let b = bs ! o_i ob in
            Inr (draw_disc opts cx cy b ob @ draw_ring opts ang cx cy b ob)))"

primrec draw_loop ::
  "options \<Rightarrow> real \<Rightarrow> real \<Rightarrow> real \<Rightarrow> body list \<Rightarrow> obj list \<Rightarrow> error + cmd list" where
  "draw_loop opts ang cx cy bs [] = Inr []"
| "draw_loop opts ang cx cy bs (ob # obs) =
     (case draw_obj opts ang cx cy bs ob of
        Inl e \<Rightarrow> Inl e
      | Inr ops \<Rightarrow>
          (case draw_loop opts ang cx cy bs obs of
             Inl e \<Rightarrow> Inl e
           | Inr ops' \<Rightarrow> Inr (ops @ ops')))"



subsection \<open>The component and its host (lines 10 to 16, 40 to 47, 51 to 56, 103 to 114)\<close>

text \<open>
  What the host reports when the component asks: the container's bounding rectangle and
  the device pixel ratio.
\<close>

record env =
  rect_width :: real
  rect_height :: real
  devicePixelRatio :: real

text \<open>\<open>window.devicePixelRatio || 1\<close>\<close>

definition dpr :: "env \<Rightarrow> real" where
  "dpr e = (if devicePixelRatio e = 0 then 1 else devicePixelRatio e)"

text \<open>
  The variables the closures share (\<open>t\<close>, \<open>angle\<close>, \<open>scale\<close>, \<open>state\<close>), the canvas, and
  what the host holds for the component: whether the canvas is a child of the
  container, whether \<open>resize\<close> is registered as a listener, whether a call of \<open>draw\<close> is
  pending with \<open>requestAnimationFrame\<close>, and the calls made on the context so far.
\<close>

record world =
  w_t :: real
  w_angle :: real
  w_scale :: real
  w_state :: "body_state list"
  canvas_width :: real
  canvas_height :: real
  canvas_in_container :: bool
  resize_listener :: bool
  frame_requested :: bool
  ctx_log :: "cmd list"

text \<open>
  Lines 40 to 47. The canvas keeps its width and height as unsigned 32-bit whole numbers
  of pixels: an assignment drops the fraction and wraps modulo \<open>2^32\<close> (the rectangle's
  sides are not negative).
\<close>

definition resize :: "env \<Rightarrow> world \<Rightarrow> world" where
  "resize e w =
     w\<lparr> canvas_width := of_int (\<lfloor>rect_width e * dpr e\<rfloor> mod 2 ^ 32),
        canvas_height := of_int (\<lfloor>rect_height e * dpr e\<rfloor> mod 2 ^ 32),
        ctx_log := ctx_log w @ [SetTransform (dpr e) 0 0 (dpr e) 0 0],
        w_scale := min (rect_width e) (rect_height e) / (MAX_ORBIT * 2) \<rparr>"

text \<open>
  Lines 51 to 105. An exception abandons the frame before line 104, so no further frame
  is requested; the model then returns the error alone.
\<close>

definition draw :: "options \<Rightarrow> env \<Rightarrow> world \<Rightarrow> error + world" where
  "draw opts e w =
     (let wd = canvas_width w / dpr e;
          h = canvas_height w / dpr e;
          cx = wd / 2;
          cy = h / 2
      in case update_positions bodies (w_t w) (w_angle w) (w_scale w) (w_state w) of
           Inl err \<Rightarrow> Inl err
         | Inr st \<Rightarrow>
             (case draw_loop opts (w_angle w) cx cy bodies (sorted_objs st) of
                Inl err \<Rightarrow> Inl err
              | Inr ops \<Rightarrow>
                  Inr (w\<lparr> w_state := st,
                          ctx_log := ctx_log w @ ClearRect 0 0 wd h # ops,
                          w_t := w_t w + 900000,
                          frame_requested := True \<rparr>)))"

text \<open>
  The world when \<open>globes\<close> is entered, after lines 12 to 14 and 37 to 38: the canvas is
  created (300 by 150, the size of a new canvas element) and appended to the container.
\<close>

definition world_init :: world where
  "world_init =
     \<lparr> w_t = 0, w_angle = angle, w_scale = 1, w_state = state_init bodies,
       canvas_width = 300, canvas_height = 150, canvas_in_container = True,
       resize_listener = False, frame_requested = False, ctx_log = [] \<rparr>"

text \<open>Lines 107 to 109: \<open>resize()\<close>, \<open>addEventListener\<close>, \<open>draw()\<close>.\<close>

definition globes :: "options \<Rightarrow> env \<Rightarrow> error + world" where
  "globes opts e = draw opts e ((resize e world_init)\<lparr>resize_listener := True\<rparr>)"

text \<open>Lines 111 to 114: the function \<open>globes\<close> returns.\<close>

definition teardown :: "world \<Rightarrow> world" where
  "teardown w = w\<lparr>resize_listener := False, canvas_in_container := False\<rparr>"

text \<open>
  The host's two callbacks: at a display refresh it calls the pending \<open>draw\<close>, if there
  is one (the request is used up by the call); at a resize of the window it calls
  \<open>resize\<close>, if it is still registered.
\<close>

definition on_frame :: "options \<Rightarrow> env \<Rightarrow> world \<Rightarrow> error + world" where
  "on_frame opts e w =
     (if frame_requested w then draw opts e (w\<lparr>frame_requested := False\<rparr>) else Inr w)"

definition on_resize :: "env \<Rightarrow> world \<Rightarrow> world" where
  "on_resize e w = (if resize_listener w then resize e w else w)"

text \<open>\<open>n\<close> display refreshes in a row.\<close>

primrec run_frames :: "options \<Rightarrow> env \<Rightarrow> nat \<Rightarrow> world \<Rightarrow> error + world" where
  "run_frames opts e 0 w = Inr w"
| "run_frames opts e (Suc n) w =
     (case on_frame opts e w of
        Inl err \<Rightarrow> Inl err
      | Inr w' \<Rightarrow> run_frames opts e n w')"

subsection \<open>Auxiliary notions for the statements\<close>

text \<open>The container with both of its logical dimensions doubled.\<close>

definition doubled :: "env \<Rightarrow> env" where
  "doubled e = e\<lparr>rect_width := 2 * rect_width e, rect_height := 2 * rect_height e\<rparr>"

text \<open>The screen radius of body \<open>i\<close> in the result of a pass of the update loop.\<close>

definition radius_after :: "error + body_state list \<Rightarrow> nat \<Rightarrow> real option" where
  "radius_after res i =
     (case res of
        Inl err \<Rightarrow> None
      | Inr st \<Rightarrow> if i < length st then Some (s_r (st ! i)) else None)"

text \<open>
  What the loop has done after its first \<open>k\<close> passes: entries below \<open>k\<close> hold the step
  of their body from the parent as it was read (the new entry of a parent listed
  earlier, the old entry of any other), the rest is untouched.
\<close>

definition parent_read :: "body_state list \<Rightarrow> body_state list \<Rightarrow> nat \<Rightarrow> nat option \<Rightarrow> body_state" where
  "parent_read st st' i po =
     (case po of
        None \<Rightarrow> zero_state
      | Some j \<Rightarrow> if j < i then st' ! j else st ! j)"

text \<open>With parents listed first, every entry is the step from its parent's new entry.\<close>

definition parent_new :: "body_state list \<Rightarrow> nat option \<Rightarrow> body_state" where
  "parent_new st' po = (case po of None \<Rightarrow> zero_state | Some j \<Rightarrow> st' ! j)"

section \<open>The loop, characterised\<close>

lemma length_bodies: "length bodies = 14"
  by (simp add: bodies_def)

lemma parents_first_bodies: "parents_first bodies"
  by (simp add: parents_first_def bodies_def)

lemma parents_firstD:
  assumes "parents_first bs" and "i < length bs" and "b_o (bs ! i) = Some j"
  shows "j < i"
proof -
  have "(i, bs ! i) \<in> set (enumerate 0 bs)"
    using assms(2) by (simp add: in_set_enumerate_eq)
  with assms(1) have "case b_o (bs ! i) of None \<Rightarrow> True | Some j \<Rightarrow> j < i"
    unfolding parents_first_def list_all_iff by fastforce
  with assms(3) show ?thesis by simp
qed

lemma parents_in_rangeD:
  assumes "parents_in_range bs" and "i < length bs" and "b_o (bs ! i) = Some j"
  shows "j < length bs"
proof -
  have "bs ! i \<in> set bs" using assms(2) by simp
  with assms(1) have "case b_o (bs ! i) of None \<Rightarrow> True | Some j \<Rightarrow> j < length bs"
    unfolding parents_in_range_def list_all_iff by blast
  with assms(3) show ?thesis by simp
qed

lemma parents_first_in_range:
  assumes "parents_first bs"
  shows "parents_in_range bs"
  unfolding parents_in_range_def list_all_iff
proof
  fix b assume "b \<in> set bs"
  then obtain i where i: "i < length bs" "bs ! i = b"
    by (auto simp: in_set_conv_nth)
  show "case b_o b of None \<Rightarrow> True | Some j \<Rightarrow> j < length bs"
  proof (cases "b_o b")
    case None
    then show ?thesis by simp
  next
    case (Some j)
    with i parents_firstD [OF assms, of i j] show ?thesis by simp
  qed
qed

lemma update_loop_append:
  "update_loop bs t ang scale (is @ js) st =
     (case update_loop bs t ang scale is st of
        Inl e \<Rightarrow> Inl e
      | Inr st' \<Rightarrow> update_loop bs t ang scale js st')"
  by (induction "is" arbitrary: st) (auto split: sum.splits)

lemma update_loop_prefix:
  assumes "parents_in_range bs" and "length st = length bs" and "k \<le> length bs"
  shows "\<exists>st'. update_loop bs t ang scale [0..<k] st = Inr st'
           \<and> length st' = length bs
           \<and> (\<forall>i<k. st' ! i = body_step (bs ! i) (parent_read st st' i (b_o (bs ! i))) t ang scale)
           \<and> (\<forall>i. k \<le> i \<longrightarrow> st' ! i = st ! i)"
  using assms(3)
proof (induction k)
  case 0
  then show ?case using assms(2) by simp
next
  case (Suc k)
  then obtain sk where sk: "update_loop bs t ang scale [0..<k] st = Inr sk"
      "length sk = length bs"
      "\<forall>i<k. sk ! i = body_step (bs ! i) (parent_read st sk i (b_o (bs ! i))) t ang scale"
      "\<forall>i. k \<le> i \<longrightarrow> sk ! i = st ! i"
    by auto
  have k: "k < length bs" using Suc.prems by simp
  have "\<exists>parent. parent_of sk (b_o (bs ! k)) = Some parent
          \<and> parent = parent_read st sk k (b_o (bs ! k))"
  proof (cases "b_o (bs ! k)")
    case None
    then show ?thesis by (simp add: parent_of_def parent_read_def)
  next
    case (Some j)
    have "j < length bs" using parents_in_rangeD [OF assms(1) k Some] .
    then show ?thesis using Some sk(2) sk(4)
      by (simp add: parent_of_def parent_read_def)
  qed
  then have pk: "parent_of sk (b_o (bs ! k)) = Some (parent_read st sk k (b_o (bs ! k)))"
    by simp
  define s' where "s' = sk[k := body_step (bs ! k) (parent_read st sk k (b_o (bs ! k))) t ang scale]"
  have step: "update_body bs t ang scale k sk = Inr s'"
    using k sk(2) pk by (simp add: update_body_def s'_def Let_def)
  have run: "update_loop bs t ang scale [0..<Suc k] st = Inr s'"
    using sk(1) step by (simp add: update_loop_append)
  have len: "length s' = length bs" using sk(2) by (simp add: s'_def)
  have same: "parent_read st s' i po = parent_read st sk i po" if "i \<le> k" for i po
    using that by (cases po) (auto simp: parent_read_def s'_def)
  have below: "\<forall>i<Suc k. s' ! i = body_step (bs ! i) (parent_read st s' i (b_o (bs ! i))) t ang scale"
  proof (intro allI impI)
    fix i assume "i < Suc k"
    then consider "i < k" | "i = k" by linarith
    then show "s' ! i = body_step (bs ! i) (parent_read st s' i (b_o (bs ! i))) t ang scale"
    proof cases
      case 1
      then have "s' ! i = sk ! i" by (simp add: s'_def)
      with 1 sk(3) same [of i] show ?thesis by simp
    next
      case 2
      then have "s' ! i = body_step (bs ! k) (parent_read st sk k (b_o (bs ! k))) t ang scale"
        using k sk(2) by (simp add: s'_def)
      with 2 same [of k] show ?thesis by simp
    qed
  qed
  have above: "\<forall>i. Suc k \<le> i \<longrightarrow> s' ! i = st ! i"
    using sk(4) by (simp add: s'_def)
  from run len below above show ?case by blast
qed

lemma update_positions_char:
  assumes "parents_first bs" and "length st = length bs"
  shows "\<exists>st'. update_positions bs t ang scale st = Inr st'
           \<and> length st' = length bs
           \<and> (\<forall>i<length bs. st' ! i = body_step (bs ! i) (parent_new st' (b_o (bs ! i))) t ang scale)"
proof -
  from update_loop_prefix [OF parents_first_in_range [OF assms(1)] assms(2) le_refl, of t ang scale]
  obtain st' where st': "update_loop bs t ang scale [0..<length bs] st = Inr st'"
      "length st' = length bs"
      "\<forall>i<length bs. st' ! i = body_step (bs ! i) (parent_read st st' i (b_o (bs ! i))) t ang scale"
    by blast
  have "parent_read st st' i (b_o (bs ! i)) = parent_new st' (b_o (bs ! i))" if "i < length bs" for i
  proof (cases "b_o (bs ! i)")
    case None
    then show ?thesis by (simp add: parent_read_def parent_new_def)
  next
    case (Some j)
    with parents_firstD [OF assms(1) that Some] show ?thesis
      by (simp add: parent_read_def parent_new_def)
  qed
  with st' show ?thesis by (auto simp: update_positions_def)
qed

section \<open>The orbital model\<close>

lemma body_step_simps:
  "s_x (body_step b parent t ang scale) = s_x parent + b_d b * scale * orbit t (b_p b) 0"
  "s_y (body_step b parent t ang scale) = s_y parent + sin ang * (b_d b * scale) * orbit t (b_p b) (pi / 2)"
  "s_z (body_step b parent t ang scale) = s_z parent + cos ang * (b_d b * scale) * orbit t (b_p b) (pi / 2)"
  "s_r (body_step b parent t ang scale) = max (if b_o b \<noteq> None then 0.5 else 0.51) (b_r b * scale)"
  "s_dr (body_step b parent t ang scale) = b_d b * scale"
  by (simp_all add: body_step_def Let_def)

lemma update_positions_total:
  assumes "parents_in_range bs" and "length st = length bs"
  shows "\<exists>st'. update_positions bs t ang scale st = Inr st'
           \<and> length st' = length bs
           \<and> (\<forall>i<length bs. st' ! i = body_step (bs ! i) (parent_read st st' i (b_o (bs ! i))) t ang scale)"
  using update_loop_prefix [OF assms le_refl, of t ang scale]
  by (auto simp: update_positions_def)

lemma parents_in_range_bodies: "parents_in_range bodies"
  by (simp add: parents_in_range_def bodies_def)

lemma length_state_init: "length (state_init bs) = length bs"
  by (simp add: state_init_def)

text \<open>
  Claim C2 (radius floor). For every body of a catalog and every scale factor, however
  small, the loop returns, and the screen radius it stores is
  \<open>max floor (baseRadius * scale)\<close>, hence at least the floor: \<open>0.51\<close> for a body with no
  parent, \<open>0.5\<close> for a satellite, and the first is strictly greater than the second.
\<close>

theorem radius_floor:
  assumes "parents_in_range bs" and "length st = length bs"
  shows "\<exists>st'. update_positions bs t ang scale st = Inr st'
           \<and> (\<forall>i<length bs.
                (b_o (bs ! i) = None \<longrightarrow>
                   s_r (st' ! i) = max 0.51 (b_r (bs ! i) * scale) \<and> 0.51 \<le> s_r (st' ! i))
              \<and> (b_o (bs ! i) \<noteq> None \<longrightarrow>
                   s_r (st' ! i) = max 0.5 (b_r (bs ! i) * scale) \<and> 0.5 \<le> s_r (st' ! i)))
           \<and> (0.5 :: real) < 0.51"
proof -
  from update_positions_total [OF assms, of t ang scale]
  obtain st' where st': "update_positions bs t ang scale st = Inr st'"
      "\<forall>i<length bs. st' ! i = body_step (bs ! i) (parent_read st st' i (b_o (bs ! i))) t ang scale"
    by blast
  have "s_r (st' ! i) = max (if b_o (bs ! i) \<noteq> None then 0.5 else 0.51) (b_r (bs ! i) * scale)"
    if "i < length bs" for i
    using st'(2) that by (simp add: body_step_simps)
  then show ?thesis using st'(1) by auto
qed

text \<open>
  The source's catalog at the scale one millionth: the Sun (index 0) is drawn with radius
  \<open>0.51\<close>, the Moon (index 4) with radius \<open>0.5\<close>.
\<close>

theorem radius_floor_witness:
  "parents_in_range bodies \<and> length (state_init bodies) = length bodies
   \<and> (\<exists>st'. update_positions bodies 0 angle (1 / 1000000) (state_init bodies) = Inr st'
          \<and> s_r (st' ! 0) = 0.51 \<and> s_r (st' ! 4) = 0.5)"
proof -
  from radius_floor [OF parents_in_range_bodies length_state_init, of 0 angle "1 / 1000000"]
  obtain st' where st': "update_positions bodies 0 angle (1 / 1000000) (state_init bodies) = Inr st'"
    "\<forall>i<length bodies.
                (b_o (bodies ! i) = None \<longrightarrow>
                   s_r (st' ! i) = max 0.51 (b_r (bodies ! i) * (1 / 1000000)) \<and> 0.51 \<le> s_r (st' ! i))
              \<and> (b_o (bodies ! i) \<noteq> None \<longrightarrow>
                   s_r (st' ! i) = max 0.5 (b_r (bodies ! i) * (1 / 1000000)) \<and> 0.5 \<le> s_r (st' ! i))"
    by blast
  from st'(2) have "s_r (st' ! 0) = 0.51"
    by (simp add: length_bodies bodies_def c_S_def)
  moreover from st'(2) have "s_r (st' ! 4) = 0.5"
    by (simp add: length_bodies bodies_def c_M_def)
  ultimately show ?thesis
    using st'(1) parents_in_range_bodies length_state_init by blast
qed

lemma orbit_0: "orbit t p 0 = cos (2 * pi * t / p)"
  by (simp add: orbit_def ac_simps)

lemma orbit_quarter: "orbit t p (pi / 2) = cos (2 * pi * t / p + pi / 2)"
  by (simp add: orbit_def ac_simps)

lemma orbit_periodic:
  assumes "p \<noteq> 0"
  shows "orbit (t + p) p off = orbit t p off"
proof -
  have "(t + p) / p * 2 * pi + off = (t / p * 2 * pi + off) + 2 * pi"
    using assms by (simp add: field_simps)
  then have "orbit (t + p) p off = cos ((t / p * 2 * pi + off) + 2 * pi)"
    by (simp only: orbit_def)
  also have "\<dots> = cos (t / p * 2 * pi + off)"
    by (rule cos_periodic)
  finally show ?thesis by (simp only: orbit_def)
qed

text \<open>
  Claim C1 (parent tracking). With parents listed before their satellites, the loop
  returns, and for every satellite \<open>i\<close> with parent \<open>j\<close> and a period that is not zero the
  offset \<open>state[i] - state[j]\<close> is
  \<open>(d * scale * cos (2 pi t / p), sin angle * d * scale * cos (2 pi t / p + pi / 2),
  cos angle * d * scale * cos (2 pi t / p + pi / 2))\<close> with \<open>d\<close> and \<open>p\<close> the satellite's own
  distance and period: the parent's position does not occur in it.
\<close>

theorem parent_tracking:
  assumes "parents_first bs" and "length st = length bs"
  shows "\<exists>st'. update_positions bs t ang scale st = Inr st'
           \<and> (\<forall>i j. i < length bs \<and> b_o (bs ! i) = Some j \<and> b_p (bs ! i) \<noteq> 0 \<longrightarrow>
                  s_x (st' ! i) - s_x (st' ! j)
                    = b_d (bs ! i) * scale * cos (2 * pi * t / b_p (bs ! i))
                \<and> s_y (st' ! i) - s_y (st' ! j)
                    = sin ang * b_d (bs ! i) * scale * cos (2 * pi * t / b_p (bs ! i) + pi / 2)
                \<and> s_z (st' ! i) - s_z (st' ! j)
                    = cos ang * b_d (bs ! i) * scale * cos (2 * pi * t / b_p (bs ! i) + pi / 2))"
proof -
  from update_positions_char [OF assms, of t ang scale]
  obtain st' where st': "update_positions bs t ang scale st = Inr st'"
      "\<forall>i<length bs. st' ! i = body_step (bs ! i) (parent_new st' (b_o (bs ! i))) t ang scale"
    by blast
  have "s_x (st' ! i) - s_x (st' ! j) = b_d (bs ! i) * scale * cos (2 * pi * t / b_p (bs ! i))
      \<and> s_y (st' ! i) - s_y (st' ! j)
          = sin ang * b_d (bs ! i) * scale * cos (2 * pi * t / b_p (bs ! i) + pi / 2)
      \<and> s_z (st' ! i) - s_z (st' ! j)
          = cos ang * b_d (bs ! i) * scale * cos (2 * pi * t / b_p (bs ! i) + pi / 2)"
    if "i < length bs" and "b_o (bs ! i) = Some j" for i j
  proof -
    have "st' ! i = body_step (bs ! i) (st' ! j) t ang scale"
      using st'(2) that by (simp add: parent_new_def)
    then show ?thesis
      by (simp add: body_step_simps orbit_0 orbit_quarter mult.assoc)
  qed
  with st'(1) show ?thesis by blast
qed

lemma bodies_nth_4: "bodies ! 4 = \<lparr>b_r = c_M, b_d = c_E + 50, b_p = 29.5 * 86400, b_o = Some 3, b_ring = None\<rparr>"
  by (simp add: bodies_def)

text \<open>The Moon (index 4) and the Earth (index 3) of the source's catalog, after half a frame step.\<close>

theorem parent_tracking_witness:
  "parents_first bodies \<and> length (state_init bodies) = length bodies
   \<and> (\<exists>st'. update_positions bodies 450000 angle 1 (state_init bodies) = Inr st'
          \<and> s_x (st' ! 4) - s_x (st' ! 3) = (c_E + 50) * 1 * cos (2 * pi * 450000 / (29.5 * 86400)))"
proof -
  from parent_tracking [OF parents_first_bodies length_state_init, of 450000 angle 1]
  obtain st' where st': "update_positions bodies 450000 angle 1 (state_init bodies) = Inr st'"
    "\<forall>i j. i < length bodies \<and> b_o (bodies ! i) = Some j \<and> b_p (bodies ! i) \<noteq> 0 \<longrightarrow>
                  s_x (st' ! i) - s_x (st' ! j)
                    = b_d (bodies ! i) * 1 * cos (2 * pi * 450000 / b_p (bodies ! i))
                \<and> s_y (st' ! i) - s_y (st' ! j)
                    = sin angle * b_d (bodies ! i) * 1 * cos (2 * pi * 450000 / b_p (bodies ! i) + pi / 2)
                \<and> s_z (st' ! i) - s_z (st' ! j)
                    = cos angle * b_d (bodies ! i) * 1 * cos (2 * pi * 450000 / b_p (bodies ! i) + pi / 2)"
    by blast
  have "4 < length bodies \<and> b_o (bodies ! 4) = Some 3 \<and> b_p (bodies ! 4) \<noteq> 0"
    by (simp add: length_bodies bodies_nth_4)
  with st'(2) have "s_x (st' ! 4) - s_x (st' ! 3)
      = b_d (bodies ! 4) * 1 * cos (2 * pi * 450000 / b_p (bodies ! 4))"
    by blast
  then have "s_x (st' ! 4) - s_x (st' ! 3) = (c_E + 50) * 1 * cos (2 * pi * 450000 / (29.5 * 86400))"
    by (simp add: bodies_nth_4)
  with st'(1) parents_first_bodies length_state_init show ?thesis by blast
qed

lemma fixed_point_unique:
  assumes "parents_first bs"
    and "length s1 = length bs" and "length s2 = length bs"
    and "\<forall>i<length bs. s1 ! i = body_step (bs ! i) (parent_new s1 (b_o (bs ! i))) t ang scale"
    and "\<forall>i<length bs. s2 ! i = body_step (bs ! i) (parent_new s2 (b_o (bs ! i))) t ang scale"
  shows "s1 = s2"
proof -
  have "i < length bs \<Longrightarrow> s1 ! i = s2 ! i" for i
  proof (induction i rule: less_induct)
    case (less i)
    have "parent_new s1 (b_o (bs ! i)) = parent_new s2 (b_o (bs ! i))"
    proof (cases "b_o (bs ! i)")
      case None
      then show ?thesis by (simp add: parent_new_def)
    next
      case (Some j)
      have "j < i" using parents_firstD [OF assms(1) less.prems Some] .
      with less Some show ?thesis by (simp add: parent_new_def)
    qed
    with assms(4,5) less.prems show ?case by simp
  qed
  with assms(2,3) show ?thesis by (simp add: list_eq_iff_nth_eq)
qed

text \<open>
  Claim C5 (determinism). With parents listed before their satellites, the loop returns
  and its result is the same from any two contents of the state array: nothing of what
  the array held before the pass survives it.
\<close>

theorem deterministic_state:
  assumes "parents_first bs" and "length st1 = length bs" and "length st2 = length bs"
  shows "(\<exists>st'. update_positions bs t ang scale st1 = Inr st')
       \<and> update_positions bs t ang scale st1 = update_positions bs t ang scale st2"
proof -
  from update_positions_char [OF assms(1,2), of t ang scale]
  obtain s1 where s1: "update_positions bs t ang scale st1 = Inr s1" "length s1 = length bs"
      "\<forall>i<length bs. s1 ! i = body_step (bs ! i) (parent_new s1 (b_o (bs ! i))) t ang scale"
    by blast
  from update_positions_char [OF assms(1,3), of t ang scale]
  obtain s2 where s2: "update_positions bs t ang scale st2 = Inr s2" "length s2 = length bs"
      "\<forall>i<length bs. s2 ! i = body_step (bs ! i) (parent_new s2 (b_o (bs ! i))) t ang scale"
    by blast
  have "s1 = s2"
    using fixed_point_unique [OF assms(1) s1(2) s2(2) s1(3) s2(3)] .
  with s1(1) s2(1) show ?thesis by simp
qed

text \<open>The source's catalog, from the initial array and from an array of arbitrary entries.\<close>

theorem deterministic_state_witness:
  "parents_first bodies \<and> length (state_init bodies) = length bodies
   \<and> length (replicate 14 \<lparr>s_x = 7, s_y = - 3, s_z = 11, s_r = 2, s_dr = 5\<rparr>) = length bodies
   \<and> (\<exists>st'. update_positions bodies 900000 angle 1 (state_init bodies) = Inr st')
   \<and> update_positions bodies 900000 angle 1 (state_init bodies)
       = update_positions bodies 900000 angle 1
           (replicate 14 \<lparr>s_x = 7, s_y = - 3, s_z = 11, s_r = 2, s_dr = 5\<rparr>)"
proof -
  have len: "length (replicate 14 \<lparr>s_x = 7, s_y = - 3, s_z = 11, s_r = 2, s_dr = 5\<rparr>) = length bodies"
    by (simp add: length_bodies)
  show ?thesis
    using deterministic_state [OF parents_first_bodies length_state_init len, of 900000 angle 1]
      parents_first_bodies length_state_init len
    by blast
qed

text \<open>
  Claim C6 (periodicity). A body with no parent and a period \<open>P\<close> that is not zero has
  the same position at \<open>t\<close> and at \<open>t + P\<close>, whatever the state array held before either
  pass.
\<close>

theorem periodicity:
  assumes "parents_in_range bs" and "length st1 = length bs" and "length st2 = length bs"
    and "i < length bs" and "b_o (bs ! i) = None" and "b_p (bs ! i) \<noteq> 0"
  shows "\<exists>s1 s2. update_positions bs t ang scale st1 = Inr s1
           \<and> update_positions bs (t + b_p (bs ! i)) ang scale st2 = Inr s2
           \<and> s_x (s1 ! i) = s_x (s2 ! i) \<and> s_y (s1 ! i) = s_y (s2 ! i) \<and> s_z (s1 ! i) = s_z (s2 ! i)"
proof -
  from update_positions_total [OF assms(1,2), of t ang scale]
  obtain s1 where s1: "update_positions bs t ang scale st1 = Inr s1"
      "\<forall>i<length bs. s1 ! i = body_step (bs ! i) (parent_read st1 s1 i (b_o (bs ! i))) t ang scale"
    by blast
  from update_positions_total [OF assms(1,3), of "t + b_p (bs ! i)" ang scale]
  obtain s2 where s2: "update_positions bs (t + b_p (bs ! i)) ang scale st2 = Inr s2"
      "\<forall>k<length bs. s2 ! k = body_step (bs ! k) (parent_read st2 s2 k (b_o (bs ! k)))
          (t + b_p (bs ! i)) ang scale"
    by blast
  have e1: "s1 ! i = body_step (bs ! i) zero_state t ang scale"
    using s1(2) assms(4,5) by (simp add: parent_read_def)
  have e2: "s2 ! i = body_step (bs ! i) zero_state (t + b_p (bs ! i)) ang scale"
    using s2(2) assms(4,5) by (simp add: parent_read_def)
  have "s_x (s1 ! i) = s_x (s2 ! i) \<and> s_y (s1 ! i) = s_y (s2 ! i) \<and> s_z (s1 ! i) = s_z (s2 ! i)"
    unfolding e1 e2 by (simp add: body_step_simps orbit_periodic [OF assms(6)])
  with s1(1) s2(1) show ?thesis by blast
qed


lemma bodies_nth_0: "bodies ! 0 = \<lparr>b_r = c_S, b_d = 0, b_p = 1, b_o = None, b_ring = None\<rparr>"
  by (simp add: bodies_def)

text \<open>
  The Sun of the source's catalog at \<open>t = 1/4\<close> and one period later, and a parentless
  body at distance 10 with period 100 at \<open>t = 25\<close> and \<open>t = 125\<close>.
\<close>

theorem periodicity_witness:
  "parents_in_range bodies \<and> length (state_init bodies) = length bodies
   \<and> 0 < length bodies \<and> b_o (bodies ! 0) = None \<and> b_p (bodies ! 0) \<noteq> 0
   \<and> (\<exists>s1 s2. update_positions bodies (1 / 4) angle 1 (state_init bodies) = Inr s1
          \<and> update_positions bodies (1 / 4 + 1) angle 1 (state_init bodies) = Inr s2
          \<and> s_x (s1 ! 0) = s_x (s2 ! 0) \<and> s_y (s1 ! 0) = s_y (s2 ! 0) \<and> s_z (s1 ! 0) = s_z (s2 ! 0))
   \<and> (\<exists>s1 s2. update_positions [\<lparr>b_r = 1, b_d = 10, b_p = 100, b_o = None, b_ring = None\<rparr>]
                  25 angle 1 [zero_state] = Inr s1
          \<and> update_positions [\<lparr>b_r = 1, b_d = 10, b_p = 100, b_o = None, b_ring = None\<rparr>]
                  (25 + 100) angle 1 [zero_state] = Inr s2
          \<and> s_x (s1 ! 0) = s_x (s2 ! 0) \<and> s_y (s1 ! 0) = s_y (s2 ! 0) \<and> s_z (s1 ! 0) = s_z (s2 ! 0))"
proof -
  have h: "0 < length bodies" "b_o (bodies ! 0) = None" "b_p (bodies ! 0) \<noteq> 0"
    by (simp_all add: length_bodies bodies_nth_0)
  have a: "\<exists>s1 s2. update_positions bodies (1 / 4) angle 1 (state_init bodies) = Inr s1
          \<and> update_positions bodies (1 / 4 + 1) angle 1 (state_init bodies) = Inr s2
          \<and> s_x (s1 ! 0) = s_x (s2 ! 0) \<and> s_y (s1 ! 0) = s_y (s2 ! 0) \<and> s_z (s1 ! 0) = s_z (s2 ! 0)"
    using periodicity [OF parents_in_range_bodies length_state_init length_state_init h,
        of "1 / 4" angle 1]
    by (simp add: bodies_nth_0)
  have b: "\<exists>s1 s2. update_positions [\<lparr>b_r = 1, b_d = 10, b_p = 100, b_o = None, b_ring = None\<rparr>]
                  25 angle 1 [zero_state] = Inr s1
          \<and> update_positions [\<lparr>b_r = 1, b_d = 10, b_p = 100, b_o = None, b_ring = None\<rparr>]
                  (25 + 100) angle 1 [zero_state] = Inr s2
          \<and> s_x (s1 ! 0) = s_x (s2 ! 0) \<and> s_y (s1 ! 0) = s_y (s2 ! 0) \<and> s_z (s1 ! 0) = s_z (s2 ! 0)"
    using periodicity [of "[\<lparr>b_r = 1, b_d = 10, b_p = 100, b_o = None, b_ring = None\<rparr>]"
        "[zero_state]" "[zero_state]" 0 25 angle 1]
    by (simp add: parents_in_range_def)
  from a b h parents_in_range_bodies length_state_init show ?thesis by blast
qed

text \<open>
  Claim C10 (the central body). The catalog's entry 0 has no parent and orbit distance
  0, and for every time, viewing angle, scale and previous content of the state array
  the loop returns with that body at \<open>(0, 0, 0)\<close>; every body that orbits it sits at its
  own orbital offset from that origin.
\<close>

theorem central_body_at_origin:
  assumes "length st = length bodies"
  shows "b_o (bodies ! 0) = None \<and> b_d (bodies ! 0) = 0
       \<and> (\<exists>st'. update_positions bodies t ang scale st = Inr st'
             \<and> s_x (st' ! 0) = 0 \<and> s_y (st' ! 0) = 0 \<and> s_z (st' ! 0) = 0
             \<and> (\<forall>i<length bodies. b_o (bodies ! i) = Some 0 \<longrightarrow>
                   s_x (st' ! i) = b_d (bodies ! i) * scale * orbit t (b_p (bodies ! i)) 0
                 \<and> s_y (st' ! i) = sin ang * (b_d (bodies ! i) * scale) * orbit t (b_p (bodies ! i)) (pi / 2)
                 \<and> s_z (st' ! i) = cos ang * (b_d (bodies ! i) * scale) * orbit t (b_p (bodies ! i)) (pi / 2)))"
proof -
  from update_positions_char [OF parents_first_bodies assms, of t ang scale]
  obtain st' where st': "update_positions bodies t ang scale st = Inr st'"
      "\<forall>i<length bodies. st' ! i = body_step (bodies ! i) (parent_new st' (b_o (bodies ! i))) t ang scale"
    by blast
  have "st' ! 0 = body_step (bodies ! 0) zero_state t ang scale"
    using st'(2) by (simp add: length_bodies bodies_nth_0 parent_new_def)
  then have z: "s_x (st' ! 0) = 0 \<and> s_y (st' ! 0) = 0 \<and> s_z (st' ! 0) = 0"
    by (simp add: body_step_simps bodies_nth_0 zero_state_def)
  have "s_x (st' ! i) = b_d (bodies ! i) * scale * orbit t (b_p (bodies ! i)) 0
      \<and> s_y (st' ! i) = sin ang * (b_d (bodies ! i) * scale) * orbit t (b_p (bodies ! i)) (pi / 2)
      \<and> s_z (st' ! i) = cos ang * (b_d (bodies ! i) * scale) * orbit t (b_p (bodies ! i)) (pi / 2)"
    if "i < length bodies" and "b_o (bodies ! i) = Some 0" for i
  proof -
    have "st' ! i = body_step (bodies ! i) (st' ! 0) t ang scale"
      using st'(2) that by (simp add: parent_new_def)
    with z show ?thesis by (simp add: body_step_simps)
  qed
  with st'(1) z show ?thesis by (simp add: bodies_nth_0)
qed

text \<open>From the initial array at \<open>t = 900000\<close>, the scale of a 1000 by 1000 container.\<close>

theorem central_body_at_origin_witness:
  "length (state_init bodies) = length bodies
   \<and> (\<exists>st'. update_positions bodies 900000 angle (1 / 13) (state_init bodies) = Inr st'
          \<and> s_x (st' ! 0) = 0 \<and> s_y (st' ! 0) = 0 \<and> s_z (st' ! 0) = 0)"
  using central_body_at_origin [OF length_state_init, of 900000 angle "1 / 13"] length_state_init
  by blast

section \<open>The depth sort\<close>

lemma mset_insert_by: "mset (insert_by cmp x ys) = add_mset x (mset ys)"
  by (induction ys) auto

lemma mset_sort_by: "mset (sort_by cmp xs) = mset xs"
  by (induction xs) (auto simp: sort_by_def mset_insert_by)

lemma set_sort_by: "set (sort_by cmp xs) = set xs"
  using mset_sort_by [of cmp xs] by (metis set_mset_mset)

lemma sort_by_Cons: "sort_by cmp (x # xs) = insert_by cmp x (sort_by cmp xs)"
  by (simp add: sort_by_def)

lemma set_insert_by: "set (insert_by cmp x ys) = insert x (set ys)"
  using mset_insert_by [of cmp x ys] by (metis set_mset_add_mset_insert set_mset_mset)

lemma descending_insert_by:
  assumes "sorted_wrt (\<lambda>a b. o_z b \<le> o_z a) ys"
  shows "sorted_wrt (\<lambda>a b. o_z b \<le> o_z a) (insert_by depth_cmp x ys)"
  using assms
proof (induction ys)
  case Nil
  then show ?case by simp
next
  case (Cons y ys)
  show ?case
  proof (cases "depth_cmp x y \<le> 0")
    case True
    then have "o_z y \<le> o_z x" by (simp add: depth_cmp_def)
    with Cons.prems have "\<forall>b\<in>set (y # ys). o_z b \<le> o_z x" by auto
    with True Cons.prems show ?thesis by simp
  next
    case False
    then have "o_z x \<le> o_z y" by (simp add: depth_cmp_def)
    with False Cons show ?thesis by (auto simp: set_insert_by)
  qed
qed

lemma descending_sort_by: "sorted_wrt (\<lambda>a b. o_z b \<le> o_z a) (sort_by depth_cmp xs)"
  by (induction xs) (simp_all add: sort_by_Cons descending_insert_by, simp add: sort_by_def)

lemma filter_insert_by_other:
  "\<not> P x \<Longrightarrow> filter P (insert_by cmp x ys) = filter P ys"
  by (induction ys) auto

lemma filter_insert_by_same:
  assumes "o_z x = k"
  shows "filter (\<lambda>a. o_z a = k) (insert_by depth_cmp x ys) = x # filter (\<lambda>a. o_z a = k) ys"
proof (induction ys)
  case Nil
  then show ?case using assms by simp
next
  case (Cons y ys)
  show ?case
  proof (cases "depth_cmp x y \<le> 0")
    case True
    then show ?thesis using assms by simp
  next
    case False
    then have "o_z y \<noteq> k" using assms by (simp add: depth_cmp_def)
    with False Cons.IH show ?thesis by simp
  qed
qed

lemma stable_sort_by:
  "filter (\<lambda>a. o_z a = k) (sort_by depth_cmp xs) = filter (\<lambda>a. o_z a = k) xs"
proof (induction xs)
  case Nil
  then show ?case by (simp add: sort_by_def)
next
  case (Cons x xs)
  then show ?case
    by (cases "o_z x = k") (simp_all add: sort_by_Cons filter_insert_by_same filter_insert_by_other)
qed

lemma ties_insert_by:
  assumes "sorted_wrt (\<lambda>a b. o_z a = o_z b \<longrightarrow> o_i a < o_i b) ys"
    and "\<forall>y\<in>set ys. o_i x < o_i y"
  shows "sorted_wrt (\<lambda>a b. o_z a = o_z b \<longrightarrow> o_i a < o_i b) (insert_by depth_cmp x ys)"
  using assms
proof (induction ys)
  case Nil
  then show ?case by simp
next
  case (Cons y ys)
  show ?case
  proof (cases "depth_cmp x y \<le> 0")
    case True
    with Cons.prems show ?thesis by simp
  next
    case False
    then have "o_z y \<noteq> o_z x" by (simp add: depth_cmp_def)
    with False Cons show ?thesis by (auto simp: set_insert_by)
  qed
qed

lemma ties_sort_by:
  assumes "sorted_wrt (\<lambda>a b. o_i a < o_i b) xs"
  shows "sorted_wrt (\<lambda>a b. o_z a = o_z b \<longrightarrow> o_i a < o_i b) (sort_by depth_cmp xs)"
  using assms
proof (induction xs)
  case Nil
  then show ?case by (simp add: sort_by_def)
next
  case (Cons x xs)
  then have "\<forall>y\<in>set (sort_by depth_cmp xs). o_i x < o_i y"
    by (simp add: set_sort_by)
  with Cons show ?case by (simp add: sort_by_Cons ties_insert_by)
qed

lemma sort_by_descending_id:
  assumes "sorted_wrt (\<lambda>a b. o_z b \<le> o_z a) xs"
  shows "sort_by depth_cmp xs = xs"
  using assms
proof (induction xs)
  case Nil
  then show ?case by (simp add: sort_by_def)
next
  case (Cons x xs)
  then have "sort_by depth_cmp (x # xs) = insert_by depth_cmp x xs"
    by (simp add: sort_by_Cons)
  also have "\<dots> = x # xs"
    using Cons.prems by (cases xs) (simp_all add: depth_cmp_def)
  finally show ?case .
qed

lemma indexed_eq: "indexed st = map (\<lambda>i. with_index (st ! i) i) [0..<length st]"
  by (rule nth_equalityI) (simp_all add: indexed_def)

lemma map_o_i_indexed: "map o_i (indexed st) = [0..<length st]"
  by (rule nth_equalityI) (simp_all add: indexed_eq with_index_def)

lemma indexed_ascending: "sorted_wrt (\<lambda>a b. o_i a < o_i b) (indexed st)"
proof -
  have "sorted_wrt (<) (map o_i (indexed st))"
    by (simp add: map_o_i_indexed)
  then show ?thesis by (simp add: sorted_wrt_map)
qed

lemma in_sorted_objs:
  assumes "ob \<in> set (sorted_objs st)"
  shows "o_i ob < length st \<and> ob = with_index (st ! o_i ob) (o_i ob)"
proof -
  from assms have "ob \<in> set (indexed st)"
    by (simp add: sorted_objs_def set_sort_by)
  then obtain i where "i < length st" "ob = with_index (st ! i) i"
    by (auto simp: indexed_eq)
  then show ?thesis by (simp add: with_index_def)
qed

text \<open>
  Claim C3 (depth sort). The draw order lists the entries of the state array by
  descending \<open>z\<close>; it is a permutation of the indexed entries; entries of equal \<open>z\<close> keep
  the order of the catalog (each class of equal \<open>z\<close> is the same sublist before and after,
  and ties come by ascending index); and sorting the sorted list again leaves it as it
  is, so a second sort of the same state gives the same draw order.
\<close>

theorem depth_sort_stable:
  "sorted_wrt (\<lambda>a b. o_z b \<le> o_z a) (sorted_objs st)
   \<and> mset (sorted_objs st) = mset (indexed st)
   \<and> map o_i (indexed st) = [0..<length st]
   \<and> (\<forall>k. filter (\<lambda>a. o_z a = k) (sorted_objs st) = filter (\<lambda>a. o_z a = k) (indexed st))
   \<and> sorted_wrt (\<lambda>a b. o_z a = o_z b \<longrightarrow> o_i a < o_i b) (sorted_objs st)
   \<and> sort_by depth_cmp (sorted_objs st) = sorted_objs st"
proof -
  have d: "sorted_wrt (\<lambda>a b. o_z b \<le> o_z a) (sorted_objs st)"
    unfolding sorted_objs_def by (rule descending_sort_by)
  have m: "mset (sorted_objs st) = mset (indexed st)"
    unfolding sorted_objs_def by (rule mset_sort_by)
  have f: "\<forall>k. filter (\<lambda>a. o_z a = k) (sorted_objs st) = filter (\<lambda>a. o_z a = k) (indexed st)"
    unfolding sorted_objs_def by (simp add: stable_sort_by)
  have t: "sorted_wrt (\<lambda>a b. o_z a = o_z b \<longrightarrow> o_i a < o_i b) (sorted_objs st)"
    unfolding sorted_objs_def by (rule ties_sort_by [OF indexed_ascending])
  have i: "sort_by depth_cmp (sorted_objs st) = sorted_objs st"
    by (rule sort_by_descending_id [OF d])
  from d m f t i map_o_i_indexed show ?thesis by blast
qed

text \<open>
  Three entries with \<open>z = 1, 2, 1\<close>: the entry of index 1 is painted first, then index 0,
  then index 2.
\<close>

theorem depth_sort_stable_witness:
  "map o_i (sorted_objs [ \<lparr>s_x = 0, s_y = 0, s_z = 1, s_r = 1, s_dr = 0\<rparr>,
                           \<lparr>s_x = 0, s_y = 0, s_z = 2, s_r = 1, s_dr = 0\<rparr>,
                           \<lparr>s_x = 0, s_y = 0, s_z = 1, s_r = 1, s_dr = 0\<rparr> ]) = [1, 0, 2]
   \<and> sorted_wrt (\<lambda>a b. o_z a = o_z b \<longrightarrow> o_i a < o_i b)
        (sorted_objs [ \<lparr>s_x = 0, s_y = 0, s_z = 1, s_r = 1, s_dr = 0\<rparr>,
                       \<lparr>s_x = 0, s_y = 0, s_z = 2, s_r = 1, s_dr = 0\<rparr>,
                       \<lparr>s_x = 0, s_y = 0, s_z = 1, s_r = 1, s_dr = 0\<rparr> ])"
proof -
  have "map o_i (sorted_objs [ \<lparr>s_x = 0, s_y = 0, s_z = 1, s_r = 1, s_dr = 0\<rparr>,
                           \<lparr>s_x = 0, s_y = 0, s_z = 2, s_r = 1, s_dr = 0\<rparr>,
                           \<lparr>s_x = 0, s_y = 0, s_z = 1, s_r = 1, s_dr = 0\<rparr> ]) = [1, 0, 2]"
    by (simp add: sorted_objs_def indexed_eq sort_by_def with_index_def depth_cmp_def upt_rec)
  then show ?thesis
    using depth_sort_stable [of "[ \<lparr>s_x = 0, s_y = 0, s_z = 1, s_r = 1, s_dr = 0\<rparr>,
                       \<lparr>s_x = 0, s_y = 0, s_z = 2, s_r = 1, s_dr = 0\<rparr>,
                       \<lparr>s_x = 0, s_y = 0, s_z = 1, s_r = 1, s_dr = 0\<rparr> ]"]
    by blast
qed

section \<open>Drawing\<close>




lemma draw_obj_in_range:
  assumes "o_i ob < length bs"
  shows "draw_obj opts ang cx cy bs ob
           = Inr (draw_disc opts cx cy (bs ! o_i ob) ob @ draw_ring opts ang cx cy (bs ! o_i ob) ob)"
  using assms by (simp add: draw_obj_def Let_def)

lemma draw_loop_in_range:
  assumes "\<forall>ob\<in>set obs. o_i ob < length bs"
  shows "draw_loop opts ang cx cy bs obs
           = Inr (concat (map (\<lambda>ob. draw_disc opts cx cy (bs ! o_i ob) ob
                                     @ draw_ring opts ang cx cy (bs ! o_i ob) ob) obs))"
  using assms by (induction obs) (simp_all add: draw_obj_in_range)

lemma sorted_objs_radius:
  assumes "ob \<in> set (sorted_objs st)"
  shows "o_r ob = s_r (st ! o_i ob)"
proof -
  from in_sorted_objs [OF assms] have "ob = with_index (st ! o_i ob) (o_i ob)" by simp
  then have "o_r ob = o_r (with_index (st ! o_i ob) (o_i ob))" by simp
  then show ?thesis by (simp add: with_index_def)
qed

lemma update_positions_length:
  assumes "parents_in_range bs" and "length st = length bs"
    and "update_positions bs t ang scale st = Inr st'"
  shows "length st' = length bs"
  using update_positions_total [OF assms(1,2), of t ang scale] assms(3) by auto

lemma mem_sorted_objs:
  assumes "i < length st"
  shows "with_index (st ! i) i \<in> set (sorted_objs st)"
  using assms by (auto simp: sorted_objs_def set_sort_by indexed_eq)








lemma cos_angle_nonneg: "0 \<le> cos angle"
proof -
  have "(3 / 10 :: real) \<le> pi / 2" using pi_ge_two by simp
  then have "0 \<le> cos (3 / 10 :: real)" by (intro cos_ge_zero) simp_all
  then show ?thesis by (simp add: angle_def)
qed

lemma hidden_bounds:
  assumes "0 < b_r b" and "0 < fst rg + snd rg" and "0 < o_r ob" and "0 \<le> cos ang"
  shows "0 \<le> hidden ang b ob rg \<and> hidden ang b ob rg \<le> pi"
proof -
  have R: "0 < ringR b ob rg"
    using assms(1-3) by (simp add: ringR_def)
  then have q: "0 < o_r ob / ringR b ob rg" using assms(3) by simp
  define m where "m = min 1 (o_r ob / ringR b ob rg)"
  have m: "0 \<le> m" "m \<le> 1" using q by (simp_all add: m_def)
  have lo: "0 \<le> arcsin m" using m by (intro arcsin_nonneg) simp
  have hi: "arcsin m \<le> pi / 2" using m by (intro arcsin_ubound) simp_all
  have "0 \<le> cos ang * 2 * arcsin m" using assms(4) lo by simp
  moreover have "cos ang * 2 * arcsin m \<le> pi"
  proof -
    have "cos ang * (2 * arcsin m) \<le> 1 * (2 * arcsin m)"
      using lo by (intro mult_right_mono) simp_all
    also have "\<dots> \<le> pi" using hi by simp
    finally show ?thesis by (simp add: mult.assoc)
  qed
  ultimately show ?thesis by (simp add: hidden_def m_def)
qed

lemma rings_of_bodies:
  assumes "i < length bodies" and "b_ring (bodies ! i) = Some rg"
  shows "0 < b_r (bodies ! i) \<and> 0 < fst rg + snd rg"
proof -
  have "\<forall>b\<in>set bodies. \<forall>rg. b_ring b = Some rg \<longrightarrow> 0 < b_r b \<and> 0 < fst rg + snd rg"
    by (simp add: bodies_def c_SA_def c_U_def)
  moreover have "bodies ! i \<in> set bodies" using assms(1) by simp
  ultimately show ?thesis using assms(2) by blast
qed

text \<open>
  Claim C4 (ring visibility bound). In every frame of the source's catalog at the fixed
  viewing angle \<open>- 0.3\<close>, for every entry of the draw order whose body has a ring, the
  hidden arc \<open>h\<close> is \<open>0\<close> or \<open>cos (- 0.3) * 2 * arcsin (min 1 (discRadius / ringRadius))\<close> and
  lies in \<open>[0, pi]\<close>; the ellipse is stroked from \<open>(- pi + h) / 2\<close> to \<open>(3 pi - h) / 2\<close>, a
  span that is neither negative nor longer than a full turn.
\<close>

theorem ring_hidden_arc_bound:
  assumes "length st = length bodies"
  shows "\<exists>st'. update_positions bodies t angle scale st = Inr st'
           \<and> (\<forall>ob\<in>set (sorted_objs st'). \<forall>rg. b_ring (bodies ! o_i ob) = Some rg \<longrightarrow>
                 0 \<le> hidden angle (bodies ! o_i ob) ob rg
               \<and> hidden angle (bodies ! o_i ob) ob rg \<le> pi
               \<and> (hidden angle (bodies ! o_i ob) ob rg = 0
                  \<or> hidden angle (bodies ! o_i ob) ob rg
                      = cos (- 0.3) * 2 * arcsin (min 1 (o_r ob / ringR (bodies ! o_i ob) ob rg)))
               \<and> (\<exists>ops. draw_obj opts angle cx cy bodies ob = Inr ops
                      \<and> Ellipse (cx + o_x ob) (cy + o_y ob)
                           (ringR (bodies ! o_i ob) ob rg)
                           (ringR (bodies ! o_i ob) ob rg * - sin angle) 0
                           (arc_start (hidden angle (bodies ! o_i ob) ob rg))
                           (arc_end (hidden angle (bodies ! o_i ob) ob rg)) \<in> set ops)
               \<and> arc_start (hidden angle (bodies ! o_i ob) ob rg)
                   \<le> arc_end (hidden angle (bodies ! o_i ob) ob rg)
               \<and> arc_end (hidden angle (bodies ! o_i ob) ob rg)
                   - arc_start (hidden angle (bodies ! o_i ob) ob rg) \<le> 2 * pi)"
proof -
  from update_positions_total [OF parents_in_range_bodies assms, of t angle scale]
  obtain st' where st': "update_positions bodies t angle scale st = Inr st'"
      "length st' = length bodies"
      "\<forall>i<length bodies. st' ! i
          = body_step (bodies ! i) (parent_read st st' i (b_o (bodies ! i))) t angle scale"
    by blast
  have "0 \<le> hidden angle (bodies ! o_i ob) ob rg
      \<and> hidden angle (bodies ! o_i ob) ob rg \<le> pi
      \<and> (hidden angle (bodies ! o_i ob) ob rg = 0
         \<or> hidden angle (bodies ! o_i ob) ob rg
             = cos (- 0.3) * 2 * arcsin (min 1 (o_r ob / ringR (bodies ! o_i ob) ob rg)))
      \<and> (\<exists>ops. draw_obj opts angle cx cy bodies ob = Inr ops
             \<and> Ellipse (cx + o_x ob) (cy + o_y ob)
                  (ringR (bodies ! o_i ob) ob rg)
                  (ringR (bodies ! o_i ob) ob rg * - sin angle) 0
                  (arc_start (hidden angle (bodies ! o_i ob) ob rg))
                  (arc_end (hidden angle (bodies ! o_i ob) ob rg)) \<in> set ops)
      \<and> arc_start (hidden angle (bodies ! o_i ob) ob rg)
          \<le> arc_end (hidden angle (bodies ! o_i ob) ob rg)
      \<and> arc_end (hidden angle (bodies ! o_i ob) ob rg)
          - arc_start (hidden angle (bodies ! o_i ob) ob rg) \<le> 2 * pi"
    if ob: "ob \<in> set (sorted_objs st')" and rg: "b_ring (bodies ! o_i ob) = Some rg" for ob rg
  proof -
    have i: "o_i ob < length bodies"
      using in_sorted_objs [OF ob] st'(2) by simp
    have "o_r ob = max (if b_o (bodies ! o_i ob) \<noteq> None then 0.5 else 0.51)
                       (b_r (bodies ! o_i ob) * scale)"
      using sorted_objs_radius [OF ob] st'(3) i by (simp add: body_step_simps)
    then have pos: "0 < o_r ob" by (simp add: max_def split: if_splits)
    from rings_of_bodies [OF i rg]
    have b: "0 < b_r (bodies ! o_i ob)" "0 < fst rg + snd rg" by simp_all
    from hidden_bounds [OF b pos cos_angle_nonneg]
    have h: "0 \<le> hidden angle (bodies ! o_i ob) ob rg" "hidden angle (bodies ! o_i ob) ob rg \<le> pi"
      by simp_all
    have form: "hidden angle (bodies ! o_i ob) ob rg = 0
         \<or> hidden angle (bodies ! o_i ob) ob rg
             = cos (- 0.3) * 2 * arcsin (min 1 (o_r ob / ringR (bodies ! o_i ob) ob rg))"
      by (simp add: hidden_def angle_def)
    have el: "\<exists>ops. draw_obj opts angle cx cy bodies ob = Inr ops
             \<and> Ellipse (cx + o_x ob) (cy + o_y ob)
                  (ringR (bodies ! o_i ob) ob rg)
                  (ringR (bodies ! o_i ob) ob rg * - sin angle) 0
                  (arc_start (hidden angle (bodies ! o_i ob) ob rg))
                  (arc_end (hidden angle (bodies ! o_i ob) ob rg)) \<in> set ops"
      using rg by (simp add: draw_obj_in_range [OF i] draw_ring_def)
    have span: "arc_start (hidden angle (bodies ! o_i ob) ob rg)
          \<le> arc_end (hidden angle (bodies ! o_i ob) ob rg)"
      "arc_end (hidden angle (bodies ! o_i ob) ob rg)
          - arc_start (hidden angle (bodies ! o_i ob) ob rg) \<le> 2 * pi"
      using h by (simp_all add: arc_start_def arc_end_def field_simps)
    from h form el span show ?thesis by blast
  qed
  with st'(1) show ?thesis by blast
qed

lemma bodies_nth_11:
  "bodies ! 11 = \<lparr>b_r = c_SA, b_d = c_S + 1500, b_p = 10756 * 86400, b_o = Some 0,
      b_ring = Some (c_SA + 100, c_SA + 200)\<rparr>"
  by (simp add: bodies_def)

text \<open>Saturn (index 11) in the first frame of a 1000 by 1000 container.\<close>

theorem ring_hidden_arc_bound_witness:
  "length (state_init bodies) = length bodies
   \<and> (\<exists>st'. update_positions bodies 0 angle (1 / 13) (state_init bodies) = Inr st'
          \<and> with_index (st' ! 11) 11 \<in> set (sorted_objs st')
          \<and> b_ring (bodies ! 11) = Some (c_SA + 100, c_SA + 200)
          \<and> 0 \<le> hidden angle (bodies ! 11) (with_index (st' ! 11) 11) (c_SA + 100, c_SA + 200)
          \<and> hidden angle (bodies ! 11) (with_index (st' ! 11) 11) (c_SA + 100, c_SA + 200) \<le> pi)"
proof -
  from ring_hidden_arc_bound [OF length_state_init, of 0 "1 / 13" default_options 500 500]
  obtain st' where st': "update_positions bodies 0 angle (1 / 13) (state_init bodies) = Inr st'"
    and all: "\<And>ob rg. ob \<in> set (sorted_objs st') \<Longrightarrow> b_ring (bodies ! o_i ob) = Some rg \<Longrightarrow>
                 0 \<le> hidden angle (bodies ! o_i ob) ob rg
               \<and> hidden angle (bodies ! o_i ob) ob rg \<le> pi"
    by blast
  have len: "length st' = 14"
    using update_positions_length [OF parents_in_range_bodies length_state_init st']
    by (simp add: length_bodies)
  have i: "o_i (with_index (st' ! 11) 11) = 11"
    by (simp add: with_index_def)
  have m: "with_index (st' ! 11) 11 \<in> set (sorted_objs st')"
    by (rule mem_sorted_objs) (simp add: len)
  have r: "b_ring (bodies ! 11) = Some (c_SA + 100, c_SA + 200)"
    by (simp add: bodies_nth_11)
  from all [OF m, of "(c_SA + 100, c_SA + 200)"] r m st' length_state_init
  show ?thesis by (auto simp: i)
qed

section \<open>Resizing\<close>

lemma w_scale_resize: "w_scale (resize e w) = min (rect_width e) (rect_height e) / (MAX_ORBIT * 2)"
  by (simp add: resize_def)

lemma w_scale_resize_doubled: "w_scale (resize (doubled e) w) = 2 * w_scale (resize e w)"
proof -
  have "min (2 * rect_width e) (2 * rect_height e) = 2 * min (rect_width e) (rect_height e)"
    by (simp add: min_def)
  then show ?thesis by (simp add: w_scale_resize doubled_def)
qed

lemma w_t_resize: "w_t (resize e w) = w_t w"
  by (simp add: resize_def)

lemma clamp_doubles_iff:
  fixes f :: real
  assumes "0 < f"
  shows "max f (r * (2 * s)) = 2 * max f (r * s) \<longleftrightarrow> f \<le> r * s"
  using assms by (auto simp: max_def)

lemma clamp_below_double:
  fixes f :: real
  assumes "0 < f" and "r * s < f"
  shows "max f (r * (2 * s)) < 2 * max f (r * s)"
  using assms by (auto simp: max_def)

lemma positions_double:
  assumes "parents_first bs"
    and "\<forall>i<length bs. s1 ! i = body_step (bs ! i) (parent_new s1 (b_o (bs ! i))) t ang scale"
    and "\<forall>i<length bs. s2 ! i = body_step (bs ! i) (parent_new s2 (b_o (bs ! i))) t ang (2 * scale)"
    and "i < length bs"
  shows "s_x (s2 ! i) = 2 * s_x (s1 ! i) \<and> s_y (s2 ! i) = 2 * s_y (s1 ! i)
       \<and> s_z (s2 ! i) = 2 * s_z (s1 ! i)"
  using assms(4)
proof (induction i rule: less_induct)
  case (less i)
  have p: "s_x (parent_new s2 (b_o (bs ! i))) = 2 * s_x (parent_new s1 (b_o (bs ! i)))
         \<and> s_y (parent_new s2 (b_o (bs ! i))) = 2 * s_y (parent_new s1 (b_o (bs ! i)))
         \<and> s_z (parent_new s2 (b_o (bs ! i))) = 2 * s_z (parent_new s1 (b_o (bs ! i)))"
  proof (cases "b_o (bs ! i)")
    case None
    then show ?thesis by (simp add: parent_new_def zero_state_def)
  next
    case (Some j)
    have j: "j < i" using parents_firstD [OF assms(1) less.prems Some] .
    then have "j < length bs" using less.prems by simp
    from less.IH [OF j this] Some show ?thesis by (simp add: parent_new_def)
  qed
  have e1: "s1 ! i = body_step (bs ! i) (parent_new s1 (b_o (bs ! i))) t ang scale"
    using assms(2) less.prems by simp
  have e2: "s2 ! i = body_step (bs ! i) (parent_new s2 (b_o (bs ! i))) t ang (2 * scale)"
    using assms(3) less.prems by simp
  show ?case
    unfolding e1 e2 using p by (simp add: body_step_simps algebra_simps)
qed

text \<open>
  Claim C7, as the code has it. Doubling both logical dimensions of the container
  doubles the recomputed scale factor and leaves the simulated time alone. In the pass of
  the update loop that follows (parents listed first), every body's scaled orbit
  distance and every coordinate of its position double, so the phase in orbit is the
  same; a body's screen radius doubles exactly when \<open>baseRadius * scale\<close> had reached its
  floor before the resize, and a body that was clamped to its floor before the resize ends
  with less than double its radius.
\<close>

theorem resize_doubles_scale:
  assumes "parents_first bs" and "length st = length bs"
  shows "w_scale (resize (doubled e) w) = 2 * w_scale (resize e w)
       \<and> w_t (resize (doubled e) w) = w_t w \<and> w_t (resize e w) = w_t w
       \<and> (\<exists>s1 s2. update_positions bs t ang (w_scale (resize e w)) st = Inr s1
              \<and> update_positions bs t ang (w_scale (resize (doubled e) w)) st = Inr s2
              \<and> (\<forall>i<length bs.
                     s_dr (s2 ! i) = 2 * s_dr (s1 ! i)
                   \<and> s_x (s2 ! i) = 2 * s_x (s1 ! i)
                   \<and> s_y (s2 ! i) = 2 * s_y (s1 ! i)
                   \<and> s_z (s2 ! i) = 2 * s_z (s1 ! i)
                   \<and> (s_r (s2 ! i) = 2 * s_r (s1 ! i)
                        \<longleftrightarrow> (if b_o (bs ! i) \<noteq> None then 0.5 else 0.51)
                              \<le> b_r (bs ! i) * w_scale (resize e w))
                   \<and> (b_r (bs ! i) * w_scale (resize e w)
                          < (if b_o (bs ! i) \<noteq> None then 0.5 else 0.51)
                        \<longrightarrow> s_r (s2 ! i) < 2 * s_r (s1 ! i))))"
proof -
  define sc where "sc = w_scale (resize e w)"
  have sc2: "w_scale (resize (doubled e) w) = 2 * sc"
    by (simp add: sc_def w_scale_resize_doubled)
  from update_positions_char [OF assms, of t ang sc]
  obtain s1 where s1: "update_positions bs t ang sc st = Inr s1"
      "\<forall>i<length bs. s1 ! i = body_step (bs ! i) (parent_new s1 (b_o (bs ! i))) t ang sc"
    by blast
  from update_positions_char [OF assms, of t ang "2 * sc"]
  obtain s2 where s2: "update_positions bs t ang (2 * sc) st = Inr s2"
      "\<forall>i<length bs. s2 ! i = body_step (bs ! i) (parent_new s2 (b_o (bs ! i))) t ang (2 * sc)"
    by blast
  have "s_dr (s2 ! i) = 2 * s_dr (s1 ! i)
      \<and> s_x (s2 ! i) = 2 * s_x (s1 ! i)
      \<and> s_y (s2 ! i) = 2 * s_y (s1 ! i)
      \<and> s_z (s2 ! i) = 2 * s_z (s1 ! i)
      \<and> (s_r (s2 ! i) = 2 * s_r (s1 ! i)
           \<longleftrightarrow> (if b_o (bs ! i) \<noteq> None then 0.5 else 0.51) \<le> b_r (bs ! i) * sc)
      \<and> (b_r (bs ! i) * sc < (if b_o (bs ! i) \<noteq> None then 0.5 else 0.51)
           \<longrightarrow> s_r (s2 ! i) < 2 * s_r (s1 ! i))"
    if i: "i < length bs" for i
  proof -
    have dr: "s_dr (s2 ! i) = 2 * s_dr (s1 ! i)"
      using s1(2) s2(2) i by (simp add: body_step_simps)
    have r1: "s_r (s1 ! i) = max (if b_o (bs ! i) \<noteq> None then 0.5 else 0.51) (b_r (bs ! i) * sc)"
      and r2: "s_r (s2 ! i) = max (if b_o (bs ! i) \<noteq> None then 0.5 else 0.51) (b_r (bs ! i) * (2 * sc))"
      using s1(2) s2(2) i by (simp_all add: body_step_simps)
    have f: "(0::real) < (if b_o (bs ! i) \<noteq> None then 0.5 else 0.51)" by simp
    from r1 r2 f have r: "s_r (s2 ! i) = 2 * s_r (s1 ! i)
           \<longleftrightarrow> (if b_o (bs ! i) \<noteq> None then 0.5 else 0.51) \<le> b_r (bs ! i) * sc"
      using clamp_doubles_iff by presburger
    have l: "b_r (bs ! i) * sc < (if b_o (bs ! i) \<noteq> None then 0.5 else 0.51)
           \<longrightarrow> s_r (s2 ! i) < 2 * s_r (s1 ! i)"
      unfolding r1 r2 using clamp_below_double [OF f] by blast
    from positions_double [OF assms(1) s1(2) s2(2) i] dr r l show ?thesis by blast
  qed
  with s1(1) s2(1) show ?thesis
    unfolding sc2 w_t_resize sc_def [symmetric] by blast
qed

lemma bodies_nth_1: "bodies ! Suc 0 = \<lparr>b_r = 7, b_d = c_S + 20, b_p = 58.6 * 86400, b_o = Some 0, b_ring = None\<rparr>"
  by (simp add: bodies_def)

lemma scale_1000: "w_scale (resize \<lparr>rect_width = 1000, rect_height = 1000, devicePixelRatio = 1\<rparr> w) = 1 / 13"
  by (simp add: w_scale_resize MAX_ORBIT_def c_S_def)

lemma scale_2000: "w_scale (resize \<lparr>rect_width = 2000, rect_height = 2000, devicePixelRatio = 1\<rparr> w) = 2 / 13"
  by (simp add: w_scale_resize MAX_ORBIT_def c_S_def)

text \<open>
  From 1000 by 1000 to 2000 by 2000 with the source's catalog: the radius of Mercury
  (index 1) doubles, the radius of the Moon (index 4) ends below the double, its orbit
  distance doubles.
\<close>

theorem resize_doubles_scale_witness:
  "parents_first bodies \<and> length (state_init bodies) = length bodies
   \<and> (\<exists>s1 s2. update_positions bodies 0 angle
                  (w_scale (resize \<lparr>rect_width = 1000, rect_height = 1000, devicePixelRatio = 1\<rparr>
                     world_init)) (state_init bodies) = Inr s1
          \<and> update_positions bodies 0 angle
                  (w_scale (resize (doubled \<lparr>rect_width = 1000, rect_height = 1000, devicePixelRatio = 1\<rparr>)
                     world_init)) (state_init bodies) = Inr s2
          \<and> s_r (s2 ! 1) = 2 * s_r (s1 ! 1)
          \<and> s_r (s2 ! 4) \<noteq> 2 * s_r (s1 ! 4)
          \<and> s_r (s2 ! 4) < 2 * s_r (s1 ! 4)
          \<and> s_dr (s2 ! 4) = 2 * s_dr (s1 ! 4))"
proof -
  let ?e = "\<lparr>rect_width = 1000, rect_height = 1000, devicePixelRatio = 1\<rparr>"
  from resize_doubles_scale [OF parents_first_bodies length_state_init, of ?e world_init 0 angle]
  obtain s1 s2 where run: "update_positions bodies 0 angle (w_scale (resize ?e world_init))
        (state_init bodies) = Inr s1"
      "update_positions bodies 0 angle (w_scale (resize (doubled ?e) world_init))
        (state_init bodies) = Inr s2"
    and all: "\<And>i. i < length bodies \<Longrightarrow>
                     s_dr (s2 ! i) = 2 * s_dr (s1 ! i)
                   \<and> (s_r (s2 ! i) = 2 * s_r (s1 ! i)
                        \<longleftrightarrow> (if b_o (bodies ! i) \<noteq> None then 0.5 else 0.51)
                              \<le> b_r (bodies ! i) * w_scale (resize ?e world_init))
                   \<and> (b_r (bodies ! i) * w_scale (resize ?e world_init)
                          < (if b_o (bodies ! i) \<noteq> None then 0.5 else 0.51)
                        \<longrightarrow> s_r (s2 ! i) < 2 * s_r (s1 ! i))"
    by blast
  have "s_r (s2 ! 1) = 2 * s_r (s1 ! 1)"
    using all [of 1] by (simp add: length_bodies bodies_nth_1 scale_1000)
  moreover have "s_r (s2 ! 4) \<noteq> 2 * s_r (s1 ! 4) \<and> s_r (s2 ! 4) < 2 * s_r (s1 ! 4)
      \<and> s_dr (s2 ! 4) = 2 * s_dr (s1 ! 4)"
    using all [of 4] by (simp add: length_bodies bodies_nth_4 scale_1000 c_M_def)
  ultimately show ?thesis
    using run parents_first_bodies length_state_init by blast
qed

lemma radius_after_bodies:
  assumes "i < length bodies"
  shows "radius_after (update_positions bodies t ang scale (state_init bodies)) i
           = Some (max (if b_o (bodies ! i) \<noteq> None then 0.5 else 0.51) (b_r (bodies ! i) * scale))"
proof -
  from update_positions_total [OF parents_in_range_bodies length_state_init, of t ang scale]
  obtain st' where st': "update_positions bodies t ang scale (state_init bodies) = Inr st'"
      "length st' = length bodies"
      "\<forall>i<length bodies. st' ! i
          = body_step (bodies ! i) (parent_read (state_init bodies) st' i (b_o (bodies ! i))) t ang scale"
    by blast
  then show ?thesis using assms by (simp add: radius_after_def body_step_simps)
qed

text \<open>
  Claim C7 as stated fails: from a 1000 by 1000 to a 2000 by 2000 container the scale
  factor doubles, from \<open>1/13\<close> to \<open>2/13\<close>, but the Moon's screen radius goes from the floor
  \<open>1/2\<close> (its unclamped radius is \<open>5/13\<close>) to \<open>10/13\<close>, which is not the double.
\<close>

theorem resize_doubles_radius_counterexample:
  "w_scale (resize \<lparr>rect_width = 2000, rect_height = 2000, devicePixelRatio = 1\<rparr> world_init)
     = 2 * w_scale (resize \<lparr>rect_width = 1000, rect_height = 1000, devicePixelRatio = 1\<rparr> world_init)
   \<and> radius_after (update_positions bodies 0 angle
        (w_scale (resize \<lparr>rect_width = 1000, rect_height = 1000, devicePixelRatio = 1\<rparr> world_init))
        (state_init bodies)) 4 = Some (1 / 2)
   \<and> radius_after (update_positions bodies 0 angle
        (w_scale (resize \<lparr>rect_width = 2000, rect_height = 2000, devicePixelRatio = 1\<rparr> world_init))
        (state_init bodies)) 4 = Some (10 / 13)
   \<and> (10 / 13 :: real) \<noteq> 2 * (1 / 2)"
proof -
  have four: "4 < length bodies" by (simp add: length_bodies)
  show ?thesis
    by (simp add: scale_1000 scale_2000 radius_after_bodies [OF four] bodies_nth_4 c_M_def)
qed

section \<open>Mounting and tearing down\<close>

lemma draw_total:
  assumes "length (w_state w) = length bodies"
  shows "\<exists>w'. draw opts e w = Inr w'
           \<and> length (w_state w') = length bodies
           \<and> frame_requested w'
           \<and> w_t w' = w_t w + 900000
           \<and> resize_listener w' = resize_listener w
           \<and> canvas_in_container w' = canvas_in_container w"
proof -
  from update_positions_total [OF parents_in_range_bodies assms,
      of "w_t w" "w_angle w" "w_scale w"]
  obtain st where st: "update_positions bodies (w_t w) (w_angle w) (w_scale w) (w_state w) = Inr st"
      "length st = length bodies"
    by blast
  have "\<forall>ob\<in>set (sorted_objs st). o_i ob < length bodies"
    using in_sorted_objs [of _ st] st(2) by auto
  from draw_loop_in_range [OF this]
  obtain ops where ops: "draw_loop opts (w_angle w)
        (canvas_width w / dpr e / 2) (canvas_height w / dpr e / 2) bodies (sorted_objs st) = Inr ops"
    by blast
  show ?thesis
    using st ops by (simp add: draw_def Let_def)
qed

lemma globes_total:
  "\<exists>w. globes opts e = Inr w
       \<and> length (w_state w) = length bodies
       \<and> frame_requested w \<and> resize_listener w \<and> canvas_in_container w
       \<and> w_t w = 900000"
proof -
  let ?w0 = "(resize e world_init)\<lparr>resize_listener := True\<rparr>"
  have "length (w_state ?w0) = length bodies"
    by (simp add: resize_def world_init_def length_state_init)
  from draw_total [OF this, of opts e]
  show ?thesis
    by (auto simp: globes_def resize_def world_init_def)
qed

lemma run_frames_after_teardown:
  assumes "length (w_state w) = length bodies" and "frame_requested w"
    and "\<not> canvas_in_container w" and "\<not> resize_listener w"
  shows "\<exists>w'. run_frames opts e n w = Inr w'
           \<and> length (w_state w') = length bodies
           \<and> frame_requested w'
           \<and> \<not> canvas_in_container w' \<and> \<not> resize_listener w'
           \<and> w_t w' = w_t w + of_nat n * 900000"
  using assms
proof (induction n arbitrary: w)
  case 0
  then show ?case by simp
next
  case (Suc n)
  let ?v = "w\<lparr>frame_requested := False\<rparr>"
  have "length (w_state ?v) = length bodies" using Suc.prems(1) by simp
  from draw_total [OF this, of opts e]
  obtain w1 where w1: "draw opts e ?v = Inr w1" "length (w_state w1) = length bodies"
      "frame_requested w1" "w_t w1 = w_t w + 900000"
      "resize_listener w1 = resize_listener w" "canvas_in_container w1 = canvas_in_container w"
    by auto
  have step: "on_frame opts e w = Inr w1"
    using Suc.prems(2) w1(1) by (simp add: on_frame_def)
  from Suc.IH [of w1] w1 Suc.prems
  obtain w' where w': "run_frames opts e n w1 = Inr w'" "length (w_state w') = length bodies"
      "frame_requested w'" "\<not> canvas_in_container w'" "\<not> resize_listener w'"
      "w_t w' = w_t w1 + of_nat n * 900000"
    by auto
  have "w_t w' = w_t w + of_nat (Suc n) * 900000"
    using w'(6) w1(4) by (simp add: algebra_simps)
  with step w' show ?case by simp
qed

text \<open>
  Claim C8 (teardown), evaluated on the code. After \<open>globes\<close> has mounted the component
  a frame is pending. The teardown handle removes the resize listener and takes the
  canvas out of the container, but the pending frame stays requested: at each of any
  number \<open>n\<close> of later display refreshes \<open>draw\<close> runs, advances the clock and requests the
  next frame, against a canvas that is no longer in the container.
\<close>

theorem teardown_leaves_frame_loop:
  "\<exists>w w'. globes opts e = Inr w
       \<and> \<not> resize_listener (teardown w)
       \<and> \<not> canvas_in_container (teardown w)
       \<and> frame_requested (teardown w)
       \<and> run_frames opts e' n (teardown w) = Inr w'
       \<and> frame_requested w'
       \<and> \<not> canvas_in_container w'
       \<and> w_t w' = w_t w + of_nat n * 900000"
proof -
  from globes_total [of opts e]
  obtain w where w: "globes opts e = Inr w" "length (w_state w) = length bodies"
      "frame_requested w"
    by blast
  have t: "length (w_state (teardown w)) = length bodies" "frame_requested (teardown w)"
      "\<not> canvas_in_container (teardown w)" "\<not> resize_listener (teardown w)"
      "w_t (teardown w) = w_t w"
    using w(2,3) by (simp_all add: teardown_def)
  from run_frames_after_teardown [OF t(1-4), of opts e' n]
  obtain w' where w': "run_frames opts e' n (teardown w) = Inr w'" "frame_requested w'"
      "\<not> canvas_in_container w'" "w_t w' = w_t (teardown w) + of_nat n * 900000"
    by blast
  with w(1) t show ?thesis by auto
qed

end
